theory Spec2Isabelle
  imports
    Main
    "HOL-Library.Char_ord"
    "HOL-Library.List_Lexorder"
    "HOL-Library.Multiset"
begin

section \<open>The task list application (TaskList/app.py)\<close>

text \<open>
  The program is one class, \<open>TodoApp\<close>, holding the list \<open>self.tasks\<close> of task
  dictionaries, the derived list \<open>self.filtered_tasks\<close>, the sort mode, and the file
  \<open>tasks.json\<close> it loads from and saves to.  The widgets are modelled only as far as
  the store reads them (the two entry fields) or writes what can raise (the listbox).
\<close>

subsection \<open>Python strings\<close>

text \<open>
  A Python \<open>str\<close> is modelled as a \<open>string\<close> of ASCII characters.  The order on
  strings is the lexicographic order on character codes, which is how Python compares
  two \<open>str\<close> values.  \<open>str.lower\<close> maps \<open>A\<close>..\<open>Z\<close> to \<open>a\<close>..\<open>z\<close>;
  \<open>str.strip\<close> removes leading and trailing white space (the ASCII characters for
  which \<open>str.isspace\<close> holds).
\<close>

definition lower_char :: "char \<Rightarrow> char" where
  "lower_char c =
     (case map_of (zip ''ABCDEFGHIJKLMNOPQRSTUVWXYZ'' ''abcdefghijklmnopqrstuvwxyz'') c of
        None \<Rightarrow> c
      | Some d \<Rightarrow> d)"

definition lower :: "string \<Rightarrow> string" where
  "lower s = map lower_char s"

definition isspace :: "char \<Rightarrow> bool" where
  "isspace c \<longleftrightarrow>
     c \<in> set [CHR 0x09, CHR 0x0A, CHR 0x0B, CHR 0x0C, CHR 0x0D,
              CHR 0x1C, CHR 0x1D, CHR 0x1E, CHR 0x1F, CHR 0x20]"

definition strip :: "string \<Rightarrow> string" where
  "strip s = rev (dropWhile isspace (rev (dropWhile isspace s)))"

text \<open>\<open>q in s\<close> on two strings: \<open>q\<close> occurs in \<open>s\<close> as a contiguous substring.\<close>

fun starts_with :: "string \<Rightarrow> string \<Rightarrow> bool" where
  "starts_with [] s = True"
| "starts_with (c # q) [] = False"
| "starts_with (c # q) (d # s) = (c = d \<and> starts_with q s)"

fun contains :: "string \<Rightarrow> string \<Rightarrow> bool" where
  "contains q [] = (q = [])"
| "contains q (d # s) = (starts_with q (d # s) \<or> contains q s)"

subsection \<open>Tasks\<close>

text \<open>
  A task is a dictionary with the keys \<open>id\<close>, \<open>title\<close>, \<open>completed\<close>,
  \<open>created_at\<close> and \<open>updated_at\<close>.  \<open>add_task\<close> writes the first four, \<open>edit_task\<close>
  and \<open>toggle_complete\<close> add the fifth, and a record loaded from the file may lack
  any of them, so every field is optional: \<open>None\<close> is a missing key.  The values are
  typed as the program writes them.  \<open>t['k']\<close> raises \<open>KeyError\<close> on a missing
  key; \<open>t.get('k', d)\<close> gives \<open>d\<close>.
\<close>

record task =
  id_key :: "string option"
  title :: "string option"
  completed :: "bool option"
  created_at :: "string option"
  updated_at :: "string option"

datatype error = KeyError

datatype sort_mode = Date | Alpha

text \<open>\<open>t.get('completed', False)\<close> and \<open>t.get('created_at', '')\<close>.\<close>

definition get_completed :: "task \<Rightarrow> bool" where
  "get_completed t = (case completed t of None \<Rightarrow> False | Some b \<Rightarrow> b)"

definition get_created_at :: "task \<Rightarrow> string" where
  "get_created_at t = (case created_at t of None \<Rightarrow> [] | Some s \<Rightarrow> s)"

text \<open>\<open>t['title'].lower()\<close>, the key of the alphabetical sort and of the search.\<close>

definition title_lower :: "task \<Rightarrow> error + string" where
  "title_lower t = (case title t of None \<Rightarrow> Inl KeyError | Some s \<Rightarrow> Inr (lower s))"

definition title_key :: "task \<Rightarrow> string" where
  "title_key t = (case title t of None \<Rightarrow> [] | Some s \<Rightarrow> lower s)"

subsection \<open>Sorting\<close>

text \<open>
  Python's \<open>sorted(xs, key=f, reverse=r)\<close> is a stable sort by ascending key; with
  \<open>reverse=True\<close> it sorts by descending key and still keeps elements with equal
  keys in their original order (the list is reversed, sorted, and reversed again).
\<close>

definition sorted_py :: "('a \<Rightarrow> 'k::linorder) \<Rightarrow> bool \<Rightarrow> 'a list \<Rightarrow> 'a list" where
  "sorted_py f reverse xs =
     (if reverse then rev (sort_key f (rev xs)) else sort_key f xs)"

text \<open>
  \<open>_sort_tasks\<close>.  In mode \<open>alpha\<close> the key function reads \<open>t['title']\<close> of every
  task before any comparison is made, so one task without a title raises
  \<open>KeyError\<close>.
\<close>

definition sort_tasks :: "sort_mode \<Rightarrow> task list \<Rightarrow> error + task list" where
  "sort_tasks mode ts =
     (if mode = Alpha then
        (if None \<in> set (map title ts) then Inl KeyError
         else Inr (sorted_py title_key False ts))
      else Inr (sorted_py get_created_at True ts))"

text \<open>
  The list comprehension \<open>[t for t in self.tasks if q in t['title'].lower()]\<close>: it
  stops with \<open>KeyError\<close> at the first task without a title.
\<close>

fun filter_tasks :: "string \<Rightarrow> task list \<Rightarrow> error + task list" where
  "filter_tasks q [] = Inr []"
| "filter_tasks q (t # ts) =
     (case title_lower t of
        Inl e \<Rightarrow> Inl e
      | Inr s \<Rightarrow>
          (case filter_tasks q ts of
             Inl e \<Rightarrow> Inl e
           | Inr r \<Rightarrow> Inr (if contains q s then t # r else r)))"

text \<open>
  Lines 297 to 304 of \<open>refresh_listbox\<close>: the view that ends up in
  \<open>self.filtered_tasks\<close>, as a function of the search text, the sort mode and the
  task list.
\<close>

definition query :: "string \<Rightarrow> sort_mode \<Rightarrow> task list \<Rightarrow> error + task list" where
  "query search_text mode ts =
     (let q = lower (strip search_text) in
      case (if q \<noteq> [] then filter_tasks q ts else Inr ts) of
        Inl e \<Rightarrow> Inl e
      | Inr ft \<Rightarrow> sort_tasks mode ft)"

subsection \<open>The application state\<close>

text \<open>
  The file \<open>tasks.json\<close> and its backup hold text.  A file's text is modelled by
  what \<open>json.load\<close> makes of it: \<open>Doc ts\<close> is the text \<open>json.dump\<close> writes for
  the task list \<open>ts\<close> (and \<open>json.load\<close> reads back as \<open>ts\<close>), \<open>Raw txt\<close> is a
  text on which \<open>json.load\<close> raises \<open>JSONDecodeError\<close> (the empty text is one),
  and \<open>Undecodable\<close> is a file whose bytes are not UTF-8 text: it opens, and
  \<open>f.read()\<close>, also the one inside \<open>json.load\<close>, raises
  \<open>UnicodeDecodeError\<close>.  A path in
  \<open>unreadable\<close> is one that \<open>open(path, 'r')\<close> refuses with an \<open>OSError\<close>, a
  path in \<open>unwritable\<close> one that \<open>open(path, 'w')\<close> refuses.
  \<open>os.path.exists(p)\<close> is \<open>files s p \<noteq> None\<close>.

  Each call of \<open>messagebox\<close> appends a dialog to \<open>dialogs\<close>; the constructors
  stand for the message texts of the source.
\<close>

datatype content = Doc "task list" | Raw string | Undecodable

datatype dialog =
    ErrorCorrupt
  | ErrorLoad
  | ErrorSave
  | WarnEmpty
  | InfoNothingToClear
  | AskClear nat
  | InfoCleared nat

record app =
  tasks :: "task list"
  filtered_tasks :: "task list"
  sort_mode :: sort_mode
  search_var :: string
  entry_task :: string
  listbox :: "(bool \<times> string) list"
  files :: "string \<rightharpoonup> content"
  unreadable :: "string set"
  unwritable :: "string set"
  dialogs :: "dialog list"

definition DATA_FILE :: string where
  "DATA_FILE = ''tasks.json''"

definition backup :: string where
  "backup = DATA_FILE @ ''.bak''"

subsection \<open>Saving and loading\<close>

text \<open>
  The inner \<open>try\<close> of \<open>save_tasks\<close>: open the data file for reading, open the
  backup for writing, copy the text.  Whatever is raised there is dropped by the bare
  \<open>except: pass\<close>.  \<open>open(backup, 'w')\<close> empties the backup before
  \<open>f.read()\<close> runs, so when the read raises the backup is left empty.
\<close>

definition copy_to_backup :: "app \<Rightarrow> app" where
  "copy_to_backup s =
     (case files s DATA_FILE of
        None \<Rightarrow> s
      | Some c \<Rightarrow>
          if DATA_FILE \<in> unreadable s then s
          else if backup \<in> unwritable s then s
          else
            (case c of
               Undecodable \<Rightarrow> s\<lparr>files := (files s)(backup \<mapsto> Raw [])\<rparr>
             | Doc ts \<Rightarrow> s\<lparr>files := (files s)(backup \<mapsto> c)\<rparr>
             | Raw txt \<Rightarrow> s\<lparr>files := (files s)(backup \<mapsto> c)\<rparr>))"

definition save_tasks :: "app \<Rightarrow> app" where
  "save_tasks s =
     (let s1 = (if files s DATA_FILE \<noteq> None then copy_to_backup s else s) in
      if DATA_FILE \<in> unwritable s1 then s1\<lparr>dialogs := dialogs s1 @ [ErrorSave]\<rparr>
      else s1\<lparr>files := (files s1)(DATA_FILE \<mapsto> Doc (tasks s1))\<rparr>)"

definition load_tasks :: "app \<Rightarrow> app" where
  "load_tasks s =
     (case files s DATA_FILE of
        None \<Rightarrow> save_tasks (s\<lparr>tasks := []\<rparr>)
      | Some c \<Rightarrow>
          if DATA_FILE \<in> unreadable s then
            s\<lparr>dialogs := dialogs s @ [ErrorLoad], tasks := []\<rparr>
          else
            (case c of
               Doc ts \<Rightarrow> s\<lparr>tasks := ts\<rparr>
             | Raw txt \<Rightarrow>
                 save_tasks (s\<lparr>dialogs := dialogs s @ [ErrorCorrupt], tasks := []\<rparr>)
             | Undecodable \<Rightarrow> s\<lparr>dialogs := dialogs s @ [ErrorLoad], tasks := []\<rparr>))"

subsection \<open>Refreshing the view\<close>

text \<open>
  The loop that fills the listbox reads \<open>t['title']\<close> and stops with \<open>KeyError\<close>
  at the first task without one; the lines inserted before stay.  A line is the pair of
  \<open>t.get('completed')\<close> (shown as the check mark and the gray colour) and the title.
\<close>

fun render :: "task list \<Rightarrow> (bool \<times> string) list \<times> error option" where
  "render [] = ([], None)"
| "render (t # ts) =
     (case title t of
        None \<Rightarrow> ([], Some KeyError)
      | Some s \<Rightarrow> (case render ts of (ls, e) \<Rightarrow> ((get_completed t, s) # ls, e)))"

text \<open>
  \<open>refresh_listbox\<close>.  An exception leaves the assignments made before it in place,
  so the result is the state reached together with the exception, if any.
\<close>

definition refresh_listbox :: "app \<Rightarrow> app \<times> error option" where
  "refresh_listbox s =
     (let q = lower (strip (search_var s)) in
      case (if q \<noteq> [] then filter_tasks q (tasks s) else Inr (tasks s)) of
        Inl e \<Rightarrow> (s, Some e)
      | Inr ft \<Rightarrow>
          (case sort_tasks (sort_mode s) ft of
             Inl e \<Rightarrow> (s\<lparr>filtered_tasks := ft\<rparr>, Some e)
           | Inr st \<Rightarrow>
               (case render st of
                  (ls, e) \<Rightarrow> (s\<lparr>filtered_tasks := st, listbox := ls\<rparr>, e))))"

subsection \<open>Adding a task and clearing the completed ones\<close>

text \<open>
  \<open>add_task\<close>.  \<open>uuid4\<close> is the string \<open>str(uuid.uuid4())\<close> and \<open>now\<close> the
  string \<open>datetime.now().isoformat()\<close> of this call; both come from the library.
  \<open>_update_stats\<close> and the focus change touch only widgets that are not modelled.
\<close>

definition new_task :: "string \<Rightarrow> string \<Rightarrow> string \<Rightarrow> task" where
  "new_task uuid4 ttl now =
     \<lparr>id_key = Some uuid4, title = Some ttl, completed = Some False,
      created_at = Some now, updated_at = None\<rparr>"

definition add_task :: "string \<Rightarrow> string \<Rightarrow> app \<Rightarrow> app \<times> error option" where
  "add_task uuid4 now s =
     (let ttl = strip (entry_task s) in
      if ttl = [] then (s\<lparr>dialogs := dialogs s @ [WarnEmpty]\<rparr>, None)
      else
        refresh_listbox
          (save_tasks (s\<lparr>tasks := new_task uuid4 ttl now # tasks s, entry_task := []\<rparr>)))"

text \<open>
  \<open>clear_completed\<close>.  \<open>confirm\<close> is the answer to \<open>messagebox.askyesno\<close>.
  The count is what the two dialogs show.
\<close>

definition clear_completed :: "bool \<Rightarrow> app \<Rightarrow> app \<times> error option" where
  "clear_completed confirm s =
     (let completed_count = length (filter get_completed (tasks s)) in
      if completed_count = 0 then (s\<lparr>dialogs := dialogs s @ [InfoNothingToClear]\<rparr>, None)
      else
        (let s1 = s\<lparr>dialogs := dialogs s @ [AskClear completed_count]\<rparr> in
         if confirm then
           (case refresh_listbox
                   (save_tasks (s1\<lparr>tasks := filter (\<lambda>t. \<not> get_completed t) (tasks s1)\<rparr>)) of
              (s2, Some e) \<Rightarrow> (s2, Some e)
            | (s2, None) \<Rightarrow>
                (s2\<lparr>dialogs := dialogs s2 @ [InfoCleared completed_count]\<rparr>, None))
         else (s1, None)))"

subsection \<open>Object identity\<close>

text \<open>
  Python lists and dictionaries are objects, and a list holds references to its
  elements.  To say what \<open>refresh_listbox\<close> shares with \<open>self.tasks\<close>, the two kinds
  of object live in a heap: \<open>list_at h r\<close> is the list object at address \<open>r\<close> (the
  references it holds), \<open>dict_at h a\<close> the dictionary at address \<open>a\<close>, and
  \<open>next_addr h\<close> the first list address not yet in use.
\<close>

type_synonym addr = nat

record heap =
  dict_at :: "addr \<Rightarrow> task"
  list_at :: "addr \<Rightarrow> addr list"
  next_addr :: addr

text \<open>A list display, \<open>list(xs)\<close>, a comprehension and \<open>sorted\<close> all build a new list object.\<close>

definition new_list :: "addr list \<Rightarrow> heap \<Rightarrow> addr \<times> heap" where
  "new_list xs h =
     (next_addr h,
      h\<lparr>list_at := (list_at h)(next_addr h := xs), next_addr := Suc (next_addr h)\<rparr>)"

text \<open>The task list a reference stands for.\<close>

definition tasks_of :: "heap \<Rightarrow> addr \<Rightarrow> task list" where
  "tasks_of h r = map (dict_at h) (list_at h r)"

fun filter_refs :: "heap \<Rightarrow> string \<Rightarrow> addr list \<Rightarrow> error + addr list" where
  "filter_refs h q [] = Inr []"
| "filter_refs h q (a # as) =
     (case title_lower (dict_at h a) of
        Inl e \<Rightarrow> Inl e
      | Inr s \<Rightarrow>
          (case filter_refs h q as of
             Inl e \<Rightarrow> Inl e
           | Inr r \<Rightarrow> Inr (if contains q s then a # r else r)))"

definition sort_refs :: "heap \<Rightarrow> sort_mode \<Rightarrow> addr list \<Rightarrow> error + addr list" where
  "sort_refs h mode as =
     (if mode = Alpha then
        (if None \<in> set (map (\<lambda>a. title (dict_at h a)) as) then Inl KeyError
         else Inr (sorted_py (\<lambda>a. title_key (dict_at h a)) False as))
      else Inr (sorted_py (\<lambda>a. get_created_at (dict_at h a)) True as))"

text \<open>
  Lines 297 to 304 of \<open>refresh_listbox\<close> on the heap: \<open>tasks_ref\<close> is
  \<open>self.tasks\<close>, the result is the reference stored in \<open>self.filtered_tasks\<close> and
  the heap after the call.
\<close>

definition refresh_listbox_refs ::
    "string \<Rightarrow> sort_mode \<Rightarrow> addr \<Rightarrow> heap \<Rightarrow> error + (addr \<times> heap)" where
  "refresh_listbox_refs search_text mode tasks_ref h =
     (let q = lower (strip search_text) in
      case (if q \<noteq> [] then filter_refs h q (list_at h tasks_ref)
            else Inr (list_at h tasks_ref)) of
        Inl e \<Rightarrow> Inl e
      | Inr ft \<Rightarrow>
          (case new_list ft h of
             (r1, h1) \<Rightarrow>
               (case sort_refs h1 mode (list_at h1 r1) of
                  Inl e \<Rightarrow> Inl e
                | Inr st \<Rightarrow> Inr (new_list st h1))))"

text \<open>
  What a caller can do with the result: rebind a slot of the list object
  (\<open>result[i] = a\<close>, and likewise any other change of the list) or assign to a key
  of one of its records (\<open>result[i]['title'] = v\<close>, as \<open>edit_task\<close> does on
  \<open>self.tasks[idx]\<close>).
\<close>

definition list_store :: "addr \<Rightarrow> addr list \<Rightarrow> heap \<Rightarrow> heap" where
  "list_store r xs h = h\<lparr>list_at := (list_at h)(r := xs)\<rparr>"

definition set_title :: "addr \<Rightarrow> string \<Rightarrow> heap \<Rightarrow> heap" where
  "set_title a v h = h\<lparr>dict_at := (dict_at h)(a := (dict_at h a)\<lparr>title := Some v\<rparr>)\<rparr>"

subsection \<open>Example data\<close>

definition fruit_tasks :: "task list" where
  "fruit_tasks =
     [new_task ''id-1'' ''banana'' ''2024-05-01T10:00:00'',
      new_task ''id-2'' ''Apple'' ''2024-05-02T10:00:00'',
      new_task ''id-3'' ''cherry'' ''2024-05-03T10:00:00'']"

definition buy_tasks :: "task list" where
  "buy_tasks =
     [new_task ''id-1'' ''Buy milk'' ''2024-05-01T10:00:00'',
      new_task ''id-2'' ''Walk dog'' ''2024-05-02T10:00:00'',
      new_task ''id-3'' ''Buy bread'' ''2024-05-03T10:00:00'']"

definition dated_tasks :: "task list" where
  "dated_tasks =
     [new_task ''id-1'' ''first'' ''2024-01-01T09:00:00'',
      new_task ''id-2'' ''second'' ''2024-03-01T09:00:00'',
      new_task ''id-3'' ''third'' ''2024-01-01T09:00:00'',
      (new_task ''id-4'' ''fourth'' [])\<lparr>created_at := None\<rparr>]"

definition undated_tasks :: "task list" where
  "undated_tasks =
     [(new_task ''id-1'' ''no date'' [])\<lparr>created_at := None\<rparr>,
      new_task ''id-2'' ''dated'' ''2024-01-01T09:00:00'']"

definition app0 :: app where
  "app0 =
     \<lparr>tasks = [], filtered_tasks = [], sort_mode = Date, search_var = [], entry_task = [],
      listbox = [], files = Map.empty, unreadable = {}, unwritable = {}, dialogs = []\<rparr>"

definition app_saved :: app where
  "app_saved = app0\<lparr>tasks := fruit_tasks, files := [DATA_FILE \<mapsto> Doc buy_tasks]\<rparr>"

definition app_corrupt :: app where
  "app_corrupt = app0\<lparr>files := [DATA_FILE \<mapsto> Raw ''[{'']\<rparr>"

definition app_locked :: app where
  "app_locked = app_saved\<lparr>unreadable := {DATA_FILE}\<rparr>"

definition app_undecodable :: app where
  "app_undecodable =
     app_saved\<lparr>files := [DATA_FILE \<mapsto> Undecodable, backup \<mapsto> Doc buy_tasks]\<rparr>"

definition app_no_backup :: app where
  "app_no_backup = app_saved\<lparr>unwritable := {backup}\<rparr>"




definition app_blank :: app where
  "app_blank = app_saved\<lparr>entry_task := ''   ''\<rparr>"

definition done_tasks :: "task list" where
  "done_tasks =
     [(new_task ''id-1'' ''one'' ''2024-05-01T10:00:00'')\<lparr>completed := Some True\<rparr>,
      (new_task ''id-2'' ''two'' ''2024-05-02T10:00:00'')\<lparr>completed := None\<rparr>,
      new_task ''id-3'' ''three'' ''2024-05-03T10:00:00'',
      (new_task ''id-4'' ''four'' ''2024-05-04T10:00:00'')\<lparr>completed := Some True\<rparr>]"

definition app_done :: app where
  "app_done = app0\<lparr>tasks := done_tasks, files := [DATA_FILE \<mapsto> Doc done_tasks]\<rparr>"

text \<open>
  A heap with one task: the list object at address 0 is \<open>self.tasks\<close> and holds a
  reference to the dictionary at address 0.  \<open>heap_view\<close> is that heap after
  \<open>refresh_listbox\<close> with an empty search in mode \<open>date\<close>.
\<close>

definition heap0 :: heap where
  "heap0 =
     \<lparr>dict_at = (\<lambda>a. new_task ''id-1'' ''banana'' ''2024-05-01T10:00:00''),
      list_at = (\<lambda>r. if r = 0 then [0] else []),
      next_addr = 1\<rparr>"

definition heap_view :: heap where
  "heap_view = snd (projr (refresh_listbox_refs [] Date 0 heap0))"

section \<open>Properties\<close>

subsection \<open>Substrings, filtering and sorting\<close>

lemma starts_with_iff: "starts_with q s \<longleftrightarrow> (\<exists>ss. s = q @ ss)"
  by (induction q s rule: starts_with.induct) auto

lemma contains_iff: "contains q s \<longleftrightarrow> (\<exists>ps ss. s = ps @ q @ ss)"
proof (induction s)
  case Nil
  show ?case by auto
next
  case (Cons d s)
  have "(\<exists>ps ss. d # s = ps @ q @ ss) \<longleftrightarrow>
        (\<exists>ss. d # s = q @ ss) \<or> (\<exists>ps ss. s = ps @ q @ ss)"
    by (auto simp: Cons_eq_append_conv)
  with Cons show ?case by (simp add: starts_with_iff)
qed

lemma filter_tasks_ok:
  "None \<notin> set (map title ts) \<Longrightarrow>
   filter_tasks q ts = Inr (filter (\<lambda>t. contains q (title_key t)) ts)"
  by (induction ts) (auto simp: title_lower_def title_key_def split: option.splits)

lemma filter_tasks_error:
  "None \<in> set (map title ts) \<Longrightarrow> filter_tasks q ts = Inl KeyError"
  by (induction ts) (auto simp: title_lower_def split: option.splits sum.splits error.splits)

lemma sorted_py_stable:
  "filter (\<lambda>y. f y = k) (sorted_py f r xs) = filter (\<lambda>y. f y = k) xs"
  by (simp add: sorted_py_def sort_key_stable rev_filter [symmetric])

lemma set_sorted_py: "set (sorted_py f r xs) = set xs"
  by (simp add: sorted_py_def)

lemma mset_sorted_py: "mset (sorted_py f r xs) = mset xs"
  by (simp add: sorted_py_def)

lemma sorted_py_ascending: "sorted (map f (sorted_py f False xs))"
  by (simp add: sorted_py_def)

lemma sorted_py_descending: "sorted_wrt (\<lambda>a b. f b \<le> f a) (sorted_py f True xs)"
proof -
  have "sorted_wrt (\<lambda>a b. f a \<le> f b) (sort_key f (rev xs))"
    using sorted_sort_key [of f "rev xs"] by (simp add: sorted_map)
  then show ?thesis
    by (simp add: sorted_py_def sorted_wrt_rev)
qed

lemma query_unfold:
  "None \<notin> set (map title ts) \<Longrightarrow>
   query search_text mode ts =
     sort_tasks mode
       (filter (\<lambda>t. lower (strip search_text) = [] \<or>
                     contains (lower (strip search_text)) (title_key t)) ts)"
  by (cases "lower (strip search_text) = []") (simp_all add: query_def filter_tasks_ok)

lemma sort_tasks_Alpha_ok:
  "None \<notin> set (map title ts) \<Longrightarrow> sort_tasks Alpha ts = Inr (sorted_py title_key False ts)"
  by (simp add: sort_tasks_def)

lemma sort_tasks_Date: "sort_tasks Date ts = Inr (sorted_py get_created_at True ts)"
  by (simp add: sort_tasks_def)

lemma titles_filter:
  "None \<notin> set (map title ts) \<Longrightarrow> None \<notin> set (map title (filter P ts))"
  by auto

lemma title_key_the: "title t \<noteq> None \<Longrightarrow> title_key t = lower (the (title t))"
  by (auto simp: title_key_def)

lemma filter_tasks_Inr_titles:
  "filter_tasks q ts = Inr r \<Longrightarrow> None \<notin> set (map title ts)"
  using filter_tasks_error [of ts q] by auto

lemma query_Inr:
  assumes "query search_text mode ts = Inr ys"
  shows "sort_tasks mode
           (filter (\<lambda>t. lower (strip search_text) = [] \<or>
                         contains (lower (strip search_text)) (title_key t)) ts) = Inr ys"
proof (cases "lower (strip search_text) = []")
  case True
  with assms show ?thesis by (simp add: query_def)
next
  case False
  with assms obtain r where r: "filter_tasks (lower (strip search_text)) ts = Inr r"
    by (auto simp: query_def split: sum.splits)
  from filter_tasks_Inr_titles [OF r] assms show ?thesis
    by (simp add: query_unfold)
qed

subsection \<open>Saving, loading and refreshing\<close>

lemma backup_neq: "backup \<noteq> DATA_FILE"
  by (simp add: backup_def DATA_FILE_def)

lemma copy_to_backup_other [simp]:
  "tasks (copy_to_backup s) = tasks s"
  "dialogs (copy_to_backup s) = dialogs s"
  "unwritable (copy_to_backup s) = unwritable s"
  "unreadable (copy_to_backup s) = unreadable s"
  "files (copy_to_backup s) DATA_FILE = files s DATA_FILE"
  by (auto simp: copy_to_backup_def backup_neq [symmetric] split: option.splits content.splits)

lemma save_tasks_tasks [simp]: "tasks (save_tasks s) = tasks s"
  by (simp add: save_tasks_def Let_def)

lemma save_tasks_unwritable [simp]: "unwritable (save_tasks s) = unwritable s"
  by (simp add: save_tasks_def Let_def)

lemma save_tasks_written:
  "DATA_FILE \<notin> unwritable s \<Longrightarrow>
   files (save_tasks s) DATA_FILE = Some (Doc (tasks s)) \<and> dialogs (save_tasks s) = dialogs s"
  by (simp add: save_tasks_def Let_def)

lemma save_tasks_refused:
  "DATA_FILE \<in> unwritable s \<Longrightarrow>
   files (save_tasks s) DATA_FILE = files s DATA_FILE \<and>
   dialogs (save_tasks s) = dialogs s @ [ErrorSave]"
  by (simp add: save_tasks_def Let_def)

lemma save_tasks_backup:
  "files (save_tasks s) backup =
     (if files s DATA_FILE \<noteq> None \<and> DATA_FILE \<notin> unreadable s \<and> backup \<notin> unwritable s
      then (if files s DATA_FILE = Some Undecodable then Some (Raw []) else files s DATA_FILE)
      else files s backup)"
  by (auto simp: save_tasks_def Let_def copy_to_backup_def backup_neq
      split: option.splits content.splits)

lemma refresh_listbox_frame [simp]:
  "tasks (fst (refresh_listbox s)) = tasks s"
  "files (fst (refresh_listbox s)) = files s"
  "dialogs (fst (refresh_listbox s)) = dialogs s"
  "unwritable (fst (refresh_listbox s)) = unwritable s"
  "unreadable (fst (refresh_listbox s)) = unreadable s"
  by (auto simp: refresh_listbox_def Let_def split: sum.splits prod.splits)

lemma refresh_listbox_query:
  "query (search_var s) (sort_mode s) (tasks s) = Inr ys \<Longrightarrow>
   filtered_tasks (fst (refresh_listbox s)) = ys"
  by (auto simp: query_def refresh_listbox_def Let_def split: sum.splits prod.splits if_splits)

text \<open>
  The save that follows a corrupt load makes its backup like any other save: the
  backup file then holds the corrupt text.
\<close>

lemma load_tasks_corrupt_backup:
  "files s DATA_FILE = Some (Raw txt) \<Longrightarrow> DATA_FILE \<notin> unreadable s \<Longrightarrow>
   backup \<notin> unwritable s \<Longrightarrow> files (load_tasks s) backup = Some (Raw txt)"
  by (simp add: load_tasks_def save_tasks_backup)

lemma get_completed_iff: "get_completed t \<longleftrightarrow> completed t = Some True"
  by (auto simp: get_completed_def split: option.splits)

subsection \<open>References\<close>

lemma new_list_simps [simp]:
  "fst (new_list xs h) = next_addr h"
  "dict_at (snd (new_list xs h)) = dict_at h"
  "next_addr (snd (new_list xs h)) = Suc (next_addr h)"
  "list_at (snd (new_list xs h)) = (list_at h)(next_addr h := xs)"
  by (simp_all add: new_list_def)

lemma filter_refs_subset:
  "filter_refs h q as = Inr r \<Longrightarrow> set r \<subseteq> set as"
  by (induction as arbitrary: r) (auto split: sum.splits if_splits)

lemma sort_refs_set:
  "sort_refs h mode as = Inr r \<Longrightarrow> set r = set as"
  by (auto simp: sort_refs_def set_sorted_py split: if_splits)

lemma filter_refs_query:
  "filter_refs h q as = Inr r \<Longrightarrow> filter_tasks q (map (dict_at h) as) = Inr (map (dict_at h) r)"
  by (induction as arbitrary: r) (auto split: sum.splits if_splits)

lemma map_insort_key:
  "map g (insort_key (\<lambda>a. f (g a)) x xs) = insort_key f (g x) (map g xs)"
  by (induction xs) simp_all

lemma map_sort_key: "map g (sort_key (\<lambda>a. f (g a)) xs) = sort_key f (map g xs)"
  by (induction xs) (simp_all add: map_insort_key)

lemma map_sorted_py: "map g (sorted_py (\<lambda>a. f (g a)) r xs) = sorted_py f r (map g xs)"
  by (simp add: sorted_py_def rev_map [symmetric] map_sort_key)

lemma sort_refs_query:
  "sort_refs h mode as = Inr r \<Longrightarrow> sort_tasks mode (map (dict_at h) as) = Inr (map (dict_at h) r)"
  by (auto simp: sort_refs_def sort_tasks_def map_sorted_py split: if_splits)

lemma refresh_listbox_refs_Inr:
  assumes "refresh_listbox_refs search_text mode tasks_ref h = Inr (r, h')"
  obtains ft st where
    "(if lower (strip search_text) \<noteq> [] then filter_refs h (lower (strip search_text)) (list_at h tasks_ref)
      else Inr (list_at h tasks_ref)) = Inr ft"
    "sort_refs h mode ft = Inr st"
    "r = Suc (next_addr h)"
    "h' = h\<lparr>list_at := (list_at h)(next_addr h := ft, Suc (next_addr h) := st),
           next_addr := Suc (Suc (next_addr h))\<rparr>"
proof -
  let ?q = "lower (strip search_text)"
  from assms obtain ft where ft:
    "(if ?q \<noteq> [] then filter_refs h ?q (list_at h tasks_ref) else Inr (list_at h tasks_ref)) = Inr ft"
    by (auto simp: refresh_listbox_refs_def Let_def split: sum.splits)
  let ?h1 = "snd (new_list ft h)"
  have same: "sort_refs ?h1 mode (list_at ?h1 (next_addr h)) = sort_refs h mode ft"
    by (simp add: sort_refs_def)
  from assms ft obtain st where st: "sort_refs h mode ft = Inr st"
    and res: "Inr (new_list st ?h1) = (Inr (r, h') :: error + addr \<times> heap)"
    using same
    by (auto simp: refresh_listbox_refs_def Let_def new_list_def sort_refs_def
        split: sum.splits prod.splits if_splits)
  from res have "r = Suc (next_addr h)"
    and "h' = h\<lparr>list_at := (list_at h)(next_addr h := ft, Suc (next_addr h) := st),
              next_addr := Suc (Suc (next_addr h))\<rparr>"
    by (auto simp: new_list_def)
  with ft st show thesis
    by (rule that)
qed

subsection \<open>What the view shares with the task list\<close>

text \<open>
  Claim C1, as the program has it.  The list that \<open>refresh_listbox\<close> stores in
  \<open>self.filtered_tasks\<close> is a new list object: its address is none that was in use,
  so it is not the list \<open>self.tasks\<close>; the task list is the same after the call; and
  whatever is stored into the new list object, the task list stays the same.  The
  tasks the new list stands for are those of \<open>query\<close>.  Its elements, though, are
  references that \<open>self.tasks\<close> holds as well: the records are shared, not copied.
\<close>

theorem view_is_fresh_list:
  "tasks_ref < next_addr h \<and>
   refresh_listbox_refs search_text mode tasks_ref h = Inr (r, h') \<longrightarrow>
     r \<noteq> tasks_ref \<and> next_addr h \<le> r \<and>
     query search_text mode (tasks_of h tasks_ref) = Inr (tasks_of h' r) \<and>
     tasks_of h' tasks_ref = tasks_of h tasks_ref \<and>
     (\<forall>xs. tasks_of (list_store r xs h') tasks_ref = tasks_of h tasks_ref) \<and>
     set (list_at h' r) \<subseteq> set (list_at h tasks_ref)"
proof (intro impI, elim conjE)
  assume lt: "tasks_ref < next_addr h"
    and a: "refresh_listbox_refs search_text mode tasks_ref h = Inr (r, h')"
  let ?q = "lower (strip search_text)"
  from a obtain ft st where
    ft: "(if ?q \<noteq> [] then filter_refs h ?q (list_at h tasks_ref)
          else Inr (list_at h tasks_ref)) = Inr ft"
    and st: "sort_refs h mode ft = Inr st"
    and r: "r = Suc (next_addr h)"
    and h': "h' = h\<lparr>list_at := (list_at h)(next_addr h := ft, Suc (next_addr h) := st),
                   next_addr := Suc (Suc (next_addr h))\<rparr>"
    by (rule refresh_listbox_refs_Inr)
  have 1: "r \<noteq> tasks_ref" "next_addr h \<le> r"
    using lt r by simp_all
  have fq: "(if ?q \<noteq> [] then filter_tasks ?q (tasks_of h tasks_ref)
             else Inr (tasks_of h tasks_ref)) = Inr (map (dict_at h) ft)"
    using ft filter_refs_query [of h ?q "list_at h tasks_ref" ft]
    by (auto simp: tasks_of_def split: if_splits)
  have 2: "query search_text mode (tasks_of h tasks_ref) = Inr (tasks_of h' r)"
    using fq sort_refs_query [OF st]
    by (cases "?q = []") (simp_all add: query_def Let_def tasks_of_def h' r)
  have 3: "tasks_of h' tasks_ref = tasks_of h tasks_ref"
    using lt by (simp add: tasks_of_def h')
  have 4: "\<forall>xs. tasks_of (list_store r xs h') tasks_ref = tasks_of h tasks_ref"
    using lt by (simp add: tasks_of_def list_store_def h' r)
  have "set ft \<subseteq> set (list_at h tasks_ref)"
    using ft filter_refs_subset [of h ?q "list_at h tasks_ref" ft] by (auto split: if_splits)
  then have 5: "set (list_at h' r) \<subseteq> set (list_at h tasks_ref)"
    using sort_refs_set [OF st] by (simp add: h' r)
  from 1 2 3 4 5 show "r \<noteq> tasks_ref \<and> next_addr h \<le> r \<and>
     query search_text mode (tasks_of h tasks_ref) = Inr (tasks_of h' r) \<and>
     tasks_of h' tasks_ref = tasks_of h tasks_ref \<and>
     (\<forall>xs. tasks_of (list_store r xs h') tasks_ref = tasks_of h tasks_ref) \<and>
     set (list_at h' r) \<subseteq> set (list_at h tasks_ref)"
    by blast
qed

theorem view_is_fresh_list_witness:
  "(0::nat) < next_addr heap0 \<and>
   refresh_listbox_refs [] Date 0 heap0 = Inr (2, heap_view) \<and>
   (2::nat) \<noteq> 0 \<and>
   query [] Date (tasks_of heap0 0) = Inr (tasks_of heap_view 2) \<and>
   tasks_of (list_store 2 [] heap_view) 0 = tasks_of heap0 0 \<and>
   tasks_of heap0 0 = [new_task ''id-1'' ''banana'' ''2024-05-01T10:00:00'']"
proof -
  have h: "(0::nat) < next_addr heap0"
    by (simp add: heap0_def)
  have v: "refresh_listbox_refs [] Date 0 heap0 = Inr (2, heap_view)"
    by (simp add: heap_view_def refresh_listbox_refs_def heap0_def new_list_def sort_refs_def
        sorted_py_def lower_def strip_def)
  have t: "tasks_of heap0 0 = [new_task ''id-1'' ''banana'' ''2024-05-01T10:00:00'']"
    by (simp add: tasks_of_def heap0_def)
  from h v t show ?thesis
    using view_is_fresh_list [of 0 heap0 "[]" Date 2 heap_view]
    by simp
qed

text \<open>
  Claim C1, as it is stated, fails for the records.  In the heap with one task, the
  view holds the reference that the task list holds; assigning to \<open>title\<close> of the
  view's first record changes the task list of the store.
\<close>

theorem view_shares_records_counterexample:
  "refresh_listbox_refs [] Date 0 heap0 = Inr (2, heap_view) \<and>
   list_at heap_view 2 = [0] \<and>
   tasks_of heap_view 0 = [new_task ''id-1'' ''banana'' ''2024-05-01T10:00:00''] \<and>
   tasks_of (set_title (list_at heap_view 2 ! 0) ''changed'' heap_view) 0 =
     [new_task ''id-1'' ''changed'' ''2024-05-01T10:00:00''] \<and>
   tasks_of (set_title (list_at heap_view 2 ! 0) ''changed'' heap_view) 0 \<noteq>
     tasks_of heap_view 0"
  by (simp add: heap_view_def refresh_listbox_refs_def heap0_def new_list_def sort_refs_def
      sorted_py_def lower_def strip_def tasks_of_def set_title_def new_task_def)

subsection \<open>Loading at startup\<close>

text \<open>
  Claim C2.  \<open>load_tasks\<close> ends in one of these ways.  Without a data file the task
  list becomes empty and \<open>save_tasks\<close> runs at once, which writes the empty list when
  the file can be written.  With a data file that is not valid JSON the corruption error
  is shown, the task list becomes empty and \<open>save_tasks\<close> runs at once, which
  overwrites the file with the empty list when it can be written.  When the data file
  cannot be opened, or opens and cannot be read as text, the load error is shown, the
  task list becomes empty and no file is touched.  Otherwise the file is valid JSON and
  its task list is loaded.
\<close>

theorem load_tasks_outcomes:
  "(files s DATA_FILE = None \<longrightarrow>
      load_tasks s = save_tasks (s\<lparr>tasks := []\<rparr>) \<and>
      tasks (load_tasks s) = [] \<and>
      (DATA_FILE \<notin> unwritable s \<longrightarrow>
         files (load_tasks s) DATA_FILE = Some (Doc []) \<and> dialogs (load_tasks s) = dialogs s)) \<and>
   (files s DATA_FILE = Some (Raw txt) \<and> DATA_FILE \<notin> unreadable s \<longrightarrow>
      load_tasks s = save_tasks (s\<lparr>dialogs := dialogs s @ [ErrorCorrupt], tasks := []\<rparr>) \<and>
      tasks (load_tasks s) = [] \<and>
      ErrorCorrupt \<in> set (dialogs (load_tasks s)) \<and>
      (DATA_FILE \<notin> unwritable s \<longrightarrow> files (load_tasks s) DATA_FILE = Some (Doc []))) \<and>
   (files s DATA_FILE = Some c \<and> DATA_FILE \<in> unreadable s \<longrightarrow>
      tasks (load_tasks s) = [] \<and>
      dialogs (load_tasks s) = dialogs s @ [ErrorLoad] \<and>
      files (load_tasks s) = files s) \<and>
   (files s DATA_FILE = Some (Doc ts) \<and> DATA_FILE \<notin> unreadable s \<longrightarrow>
      load_tasks s = s\<lparr>tasks := ts\<rparr>) \<and>
   (files s DATA_FILE = Some Undecodable \<longrightarrow>
      tasks (load_tasks s) = [] \<and>
      dialogs (load_tasks s) = dialogs s @ [ErrorLoad] \<and>
      files (load_tasks s) = files s)"
proof (intro conjI impI)
  assume a: "files s DATA_FILE = None"
  then show l: "load_tasks s = save_tasks (s\<lparr>tasks := []\<rparr>)"
    by (simp add: load_tasks_def)
  show "tasks (load_tasks s) = []"
    unfolding l by simp
  assume "DATA_FILE \<notin> unwritable s"
  then show "files (load_tasks s) DATA_FILE = Some (Doc [])" "dialogs (load_tasks s) = dialogs s"
    unfolding l using save_tasks_written [of "s\<lparr>tasks := []\<rparr>"] by simp_all
next
  assume a: "files s DATA_FILE = Some (Raw txt) \<and> DATA_FILE \<notin> unreadable s"
  let ?s1 = "s\<lparr>dialogs := dialogs s @ [ErrorCorrupt], tasks := []\<rparr>"
  from a show l: "load_tasks s = save_tasks ?s1"
    by (simp add: load_tasks_def)
  show "tasks (load_tasks s) = []"
    unfolding l by simp
  show "ErrorCorrupt \<in> set (dialogs (load_tasks s))"
    unfolding l using save_tasks_written [of ?s1] save_tasks_refused [of ?s1]
    by (cases "DATA_FILE \<in> unwritable s") simp_all
  assume "DATA_FILE \<notin> unwritable s"
  then show "files (load_tasks s) DATA_FILE = Some (Doc [])"
    unfolding l using save_tasks_written [of ?s1] by simp
next
  assume a: "files s DATA_FILE = Some c \<and> DATA_FILE \<in> unreadable s"
  then show "tasks (load_tasks s) = []" "dialogs (load_tasks s) = dialogs s @ [ErrorLoad]"
    "files (load_tasks s) = files s"
    by (simp_all add: load_tasks_def)
next
  assume "files s DATA_FILE = Some (Doc ts) \<and> DATA_FILE \<notin> unreadable s"
  then show "load_tasks s = s\<lparr>tasks := ts\<rparr>"
    by (simp add: load_tasks_def)
next
  assume a: "files s DATA_FILE = Some Undecodable"
  then show "tasks (load_tasks s) = []" "dialogs (load_tasks s) = dialogs s @ [ErrorLoad]"
    "files (load_tasks s) = files s"
    by (simp_all add: load_tasks_def)
qed

theorem load_tasks_outcomes_witness:
  "files app0 DATA_FILE = None \<and> DATA_FILE \<notin> unwritable app0 \<and>
   tasks (load_tasks app0) = [] \<and>
   files (load_tasks app0) DATA_FILE = Some (Doc []) \<and>
   files app_corrupt DATA_FILE = Some (Raw ''[{'') \<and> DATA_FILE \<notin> unreadable app_corrupt \<and>
   DATA_FILE \<notin> unwritable app_corrupt \<and>
   tasks (load_tasks app_corrupt) = [] \<and>
   ErrorCorrupt \<in> set (dialogs (load_tasks app_corrupt)) \<and>
   files (load_tasks app_corrupt) DATA_FILE = Some (Doc []) \<and>
   files app_locked DATA_FILE = Some (Doc buy_tasks) \<and> DATA_FILE \<in> unreadable app_locked \<and>
   tasks (load_tasks app_locked) = [] \<and>
   dialogs (load_tasks app_locked) = dialogs app_locked @ [ErrorLoad] \<and>
   files (load_tasks app_locked) = files app_locked \<and>
   files app_saved DATA_FILE = Some (Doc buy_tasks) \<and> DATA_FILE \<notin> unreadable app_saved \<and>
   load_tasks app_saved = app_saved\<lparr>tasks := buy_tasks\<rparr> \<and>
   files app_undecodable DATA_FILE = Some Undecodable \<and>
   tasks (load_tasks app_undecodable) = [] \<and>
   dialogs (load_tasks app_undecodable) = dialogs app_undecodable @ [ErrorLoad] \<and>
   files (load_tasks app_undecodable) = files app_undecodable"
proof -
  have h1: "files app0 DATA_FILE = None \<and> DATA_FILE \<notin> unwritable app0"
    by (simp add: app0_def)
  have h2: "files app_corrupt DATA_FILE = Some (Raw ''[{'') \<and>
            DATA_FILE \<notin> unreadable app_corrupt \<and> DATA_FILE \<notin> unwritable app_corrupt"
    by (simp add: app_corrupt_def app0_def)
  have h3: "files app_locked DATA_FILE = Some (Doc buy_tasks) \<and>
            DATA_FILE \<in> unreadable app_locked"
    by (simp add: app_locked_def app_saved_def app0_def)
  have h4: "files app_saved DATA_FILE = Some (Doc buy_tasks) \<and>
            DATA_FILE \<notin> unreadable app_saved"
    by (simp add: app_saved_def app0_def)
  from h1 have c1: "tasks (load_tasks app0) = [] \<and>
                    files (load_tasks app0) DATA_FILE = Some (Doc [])"
    using load_tasks_outcomes [of app0] by blast
  from h2 have c2: "tasks (load_tasks app_corrupt) = [] \<and>
                    ErrorCorrupt \<in> set (dialogs (load_tasks app_corrupt)) \<and>
                    files (load_tasks app_corrupt) DATA_FILE = Some (Doc [])"
    using load_tasks_outcomes [of app_corrupt "''[{''"] by blast
  from h3 have c3: "tasks (load_tasks app_locked) = [] \<and>
                    dialogs (load_tasks app_locked) = dialogs app_locked @ [ErrorLoad] \<and>
                    files (load_tasks app_locked) = files app_locked"
    using load_tasks_outcomes [of app_locked _ "Doc buy_tasks"] by blast
  from h4 have c4: "load_tasks app_saved = app_saved\<lparr>tasks := buy_tasks\<rparr>"
    using load_tasks_outcomes [of app_saved _ _ buy_tasks] by blast
  have h5: "files app_undecodable DATA_FILE = Some Undecodable"
    by (simp add: app_undecodable_def app_saved_def app0_def backup_def DATA_FILE_def)
  from h5 have c5: "tasks (load_tasks app_undecodable) = [] \<and>
                    dialogs (load_tasks app_undecodable) = dialogs app_undecodable @ [ErrorLoad] \<and>
                    files (load_tasks app_undecodable) = files app_undecodable"
    using load_tasks_outcomes [of app_undecodable] by blast
  from h1 h2 h3 h4 h5 c1 c2 c3 c4 c5 show ?thesis
    by blast
qed

subsection \<open>The backup made by a save\<close>

text \<open>
  Claim C3.  When the data file exists and the copy goes through, \<open>save_tasks\<close> leaves
  in the backup file the text the data file had before the call, while the data file now
  holds the task list.  When the copy fails, nothing is reported and the data file is
  written all the same: if the data file cannot be opened for reading or the backup
  cannot be opened for writing, the backup is left as it was; if both open and reading
  the data file raises, the backup is left empty.  Whenever the data file can be
  written it holds the task list after the call, with no error shown.  Without a data
  file no backup is made.
\<close>

theorem save_tasks_backup_policy:
  "(files s DATA_FILE = Some c \<and> c \<noteq> Undecodable \<and>
    DATA_FILE \<notin> unreadable s \<and> backup \<notin> unwritable s \<longrightarrow>
      files (save_tasks s) backup = Some c) \<and>
   (files s DATA_FILE = Some c \<and> (DATA_FILE \<in> unreadable s \<or> backup \<in> unwritable s) \<and>
    DATA_FILE \<notin> unwritable s \<longrightarrow>
      files (save_tasks s) DATA_FILE = Some (Doc (tasks s)) \<and>
      dialogs (save_tasks s) = dialogs s \<and>
      files (save_tasks s) backup = files s backup) \<and>
   (files s DATA_FILE = Some Undecodable \<and>
    DATA_FILE \<notin> unreadable s \<and> backup \<notin> unwritable s \<and> DATA_FILE \<notin> unwritable s \<longrightarrow>
      files (save_tasks s) DATA_FILE = Some (Doc (tasks s)) \<and>
      dialogs (save_tasks s) = dialogs s \<and>
      files (save_tasks s) backup = Some (Raw [])) \<and>
   (DATA_FILE \<notin> unwritable s \<longrightarrow>
      files (save_tasks s) DATA_FILE = Some (Doc (tasks s)) \<and>
      dialogs (save_tasks s) = dialogs s) \<and>
   (files s DATA_FILE = None \<longrightarrow> files (save_tasks s) backup = files s backup) \<and>
   tasks (save_tasks s) = tasks s"
  by (auto simp: save_tasks_written save_tasks_backup)

theorem save_tasks_backup_policy_witness:
  "files app_saved DATA_FILE = Some (Doc buy_tasks) \<and> Doc buy_tasks \<noteq> Undecodable \<and>
   DATA_FILE \<notin> unreadable app_saved \<and> backup \<notin> unwritable app_saved \<and>
   DATA_FILE \<notin> unwritable app_saved \<and> tasks app_saved = fruit_tasks \<and>
   files (save_tasks app_saved) backup = Some (Doc buy_tasks) \<and>
   files (save_tasks app_saved) DATA_FILE = Some (Doc (tasks app_saved)) \<and>
   files app_no_backup DATA_FILE = Some (Doc buy_tasks) \<and>
   backup \<in> unwritable app_no_backup \<and> DATA_FILE \<notin> unwritable app_no_backup \<and>
   files (save_tasks app_no_backup) DATA_FILE = Some (Doc (tasks app_no_backup)) \<and>
   files (save_tasks app_no_backup) backup = files app_no_backup backup \<and>
   dialogs (save_tasks app_no_backup) = dialogs app_no_backup \<and>
   files app_undecodable DATA_FILE = Some Undecodable \<and>
   files app_undecodable backup = Some (Doc buy_tasks) \<and>
   DATA_FILE \<notin> unreadable app_undecodable \<and> backup \<notin> unwritable app_undecodable \<and>
   DATA_FILE \<notin> unwritable app_undecodable \<and>
   files (save_tasks app_undecodable) DATA_FILE = Some (Doc (tasks app_undecodable)) \<and>
   dialogs (save_tasks app_undecodable) = dialogs app_undecodable \<and>
   files (save_tasks app_undecodable) backup = Some (Raw []) \<and>
   files app0 DATA_FILE = None \<and>
   files (save_tasks app0) backup = files app0 backup"
proof -
  have h1: "files app_saved DATA_FILE = Some (Doc buy_tasks) \<and> Doc buy_tasks \<noteq> Undecodable \<and>
            DATA_FILE \<notin> unreadable app_saved \<and> backup \<notin> unwritable app_saved \<and>
            DATA_FILE \<notin> unwritable app_saved \<and> tasks app_saved = fruit_tasks"
    by (simp add: app_saved_def app0_def)
  have h2: "files app_no_backup DATA_FILE = Some (Doc buy_tasks) \<and>
            backup \<in> unwritable app_no_backup \<and> DATA_FILE \<notin> unwritable app_no_backup"
    by (simp add: app_no_backup_def app_saved_def app0_def backup_def DATA_FILE_def)
  have h3: "files app0 DATA_FILE = None"
    by (simp add: app0_def)
  have h4: "files app_undecodable DATA_FILE = Some Undecodable \<and>
            files app_undecodable backup = Some (Doc buy_tasks) \<and>
            DATA_FILE \<notin> unreadable app_undecodable \<and> backup \<notin> unwritable app_undecodable \<and>
            DATA_FILE \<notin> unwritable app_undecodable"
    by (simp add: app_undecodable_def app_saved_def app0_def backup_def DATA_FILE_def)
  from h1 have c1: "files (save_tasks app_saved) backup = Some (Doc buy_tasks) \<and>
                    files (save_tasks app_saved) DATA_FILE = Some (Doc (tasks app_saved))"
    using save_tasks_backup_policy [of app_saved "Doc buy_tasks"] by blast
  from h2 have c2: "files (save_tasks app_no_backup) DATA_FILE =
                      Some (Doc (tasks app_no_backup)) \<and>
                    files (save_tasks app_no_backup) backup = files app_no_backup backup \<and>
                    dialogs (save_tasks app_no_backup) = dialogs app_no_backup"
    using save_tasks_backup_policy [of app_no_backup "Doc buy_tasks"] by blast
  from h3 have c3: "files (save_tasks app0) backup = files app0 backup"
    using save_tasks_backup_policy [of app0] by blast
  from h4 have c4: "files (save_tasks app_undecodable) DATA_FILE =
                      Some (Doc (tasks app_undecodable)) \<and>
                    dialogs (save_tasks app_undecodable) = dialogs app_undecodable \<and>
                    files (save_tasks app_undecodable) backup = Some (Raw [])"
    using save_tasks_backup_policy [of app_undecodable] by blast
  from h1 h2 h3 h4 c1 c2 c3 c4 show ?thesis
    by blast
qed

subsection \<open>Adding a task\<close>




subsection \<open>Adding a blank title\<close>

text \<open>
  Claim C5.  When the entry text strips to the empty string, as the empty text and the
  text of three spaces do, \<open>add_task\<close> shows the warning and returns: the task list
  and the files are as before, so nothing is saved.
\<close>

theorem add_task_blank:
  "(strip (entry_task s) = [] \<longrightarrow>
      add_task uuid4 now s = (s\<lparr>dialogs := dialogs s @ [WarnEmpty]\<rparr>, None) \<and>
      tasks (fst (add_task uuid4 now s)) = tasks s \<and>
      files (fst (add_task uuid4 now s)) = files s) \<and>
   strip [] = [] \<and> strip ''   '' = []"
  by (simp add: add_task_def strip_def isspace_def)

theorem add_task_blank_witness:
  "strip (entry_task app_blank) = [] \<and>
   add_task ''id-9'' ''2024-06-01T08:00:00'' app_blank =
     (app_blank\<lparr>dialogs := dialogs app_blank @ [WarnEmpty]\<rparr>, None) \<and>
   tasks (fst (add_task ''id-9'' ''2024-06-01T08:00:00'' app_blank)) = tasks app_blank \<and>
   files (fst (add_task ''id-9'' ''2024-06-01T08:00:00'' app_blank)) = files app_blank"
proof -
  have h: "strip (entry_task app_blank) = []"
    by (simp add: app_blank_def app_saved_def app0_def strip_def isspace_def)
  from h show ?thesis
    using add_task_blank [of app_blank "''id-9''" "''2024-06-01T08:00:00''"]
    by blast
qed

subsection \<open>Clearing the completed tasks\<close>

text \<open>
  Claim C6.  When no task is completed, \<open>clear_completed\<close> shows that there is nothing
  to clear and changes neither the task list nor any file.  When some task is completed
  and the user confirms, the task list becomes the tasks that are not completed, in
  their order; the number of tasks removed is the number of completed tasks, which is
  the count asked about and, when the refresh raises nothing, the count reported at the
  end; and the new list is saved.  When the user declines, nothing is removed or saved.
\<close>

theorem clear_completed_removes:
  "(length (filter (\<lambda>t. completed t = Some True) (tasks s)) = 0 \<longrightarrow>
      clear_completed confirm s = (s\<lparr>dialogs := dialogs s @ [InfoNothingToClear]\<rparr>, None) \<and>
      tasks (fst (clear_completed confirm s)) = tasks s \<and>
      files (fst (clear_completed confirm s)) = files s) \<and>
   (0 < length (filter (\<lambda>t. completed t = Some True) (tasks s)) \<and> confirm \<longrightarrow>
      tasks (fst (clear_completed confirm s)) =
        filter (\<lambda>t. completed t \<noteq> Some True) (tasks s) \<and>
      length (tasks s) - length (tasks (fst (clear_completed confirm s))) =
        length (filter (\<lambda>t. completed t = Some True) (tasks s)) \<and>
      AskClear (length (filter (\<lambda>t. completed t = Some True) (tasks s)))
        \<in> set (dialogs (fst (clear_completed confirm s))) \<and>
      (snd (clear_completed confirm s) = None \<longrightarrow>
         last (dialogs (fst (clear_completed confirm s))) =
           InfoCleared (length (filter (\<lambda>t. completed t = Some True) (tasks s)))) \<and>
      files (fst (clear_completed confirm s)) =
        files (save_tasks
                 (s\<lparr>tasks := filter (\<lambda>t. completed t \<noteq> Some True) (tasks s)\<rparr>))) \<and>
   (\<not> confirm \<longrightarrow>
      tasks (fst (clear_completed confirm s)) = tasks s \<and>
      files (fst (clear_completed confirm s)) = files s)"
proof -
  let ?n = "length (filter get_completed (tasks s))"
  have gc: "get_completed = (\<lambda>t. completed t = Some True)"
    by (rule ext) (rule get_completed_iff)
  have zero: "?n = 0 \<longrightarrow>
      clear_completed confirm s = (s\<lparr>dialogs := dialogs s @ [InfoNothingToClear]\<rparr>, None) \<and>
      tasks (fst (clear_completed confirm s)) = tasks s \<and>
      files (fst (clear_completed confirm s)) = files s"
    by (simp add: clear_completed_def Let_def)
  have no: "\<not> confirm \<longrightarrow>
      tasks (fst (clear_completed confirm s)) = tasks s \<and>
      files (fst (clear_completed confirm s)) = files s"
    by (simp add: clear_completed_def Let_def)
  have yes: "0 < ?n \<and> confirm \<longrightarrow>
      tasks (fst (clear_completed confirm s)) = filter (\<lambda>t. \<not> get_completed t) (tasks s) \<and>
      length (tasks s) - length (tasks (fst (clear_completed confirm s))) = ?n \<and>
      AskClear ?n \<in> set (dialogs (fst (clear_completed confirm s))) \<and>
      (snd (clear_completed confirm s) = None \<longrightarrow>
         last (dialogs (fst (clear_completed confirm s))) = InfoCleared ?n) \<and>
      files (fst (clear_completed confirm s)) =
        files (save_tasks (s\<lparr>tasks := filter (\<lambda>t. \<not> get_completed t) (tasks s)\<rparr>))"
  proof (intro impI, elim conjE)
    assume pos: "0 < ?n" and c: confirm
    let ?s1 = "s\<lparr>dialogs := dialogs s @ [AskClear ?n]\<rparr>"
    let ?s2 = "save_tasks (?s1\<lparr>tasks := filter (\<lambda>t. \<not> get_completed t) (tasks s)\<rparr>)"
    obtain s3 e where r: "refresh_listbox ?s2 = (s3, e)"
      by (cases "refresh_listbox ?s2")
    have s3: "tasks s3 = tasks ?s2" "files s3 = files ?s2" "dialogs s3 = dialogs ?s2"
      using refresh_listbox_frame [of ?s2] by (simp_all add: r)
    have cc: "clear_completed confirm s =
                (case e of Some x \<Rightarrow> (s3, Some x)
                 | None \<Rightarrow> (s3\<lparr>dialogs := dialogs s3 @ [InfoCleared ?n]\<rparr>, None))"
      using pos c r by (simp add: clear_completed_def Let_def split: option.splits)
    have d2: "AskClear ?n \<in> set (dialogs ?s2)"
      using save_tasks_written [of "?s1\<lparr>tasks := filter (\<lambda>t. \<not> get_completed t) (tasks s)\<rparr>"]
        save_tasks_refused [of "?s1\<lparr>tasks := filter (\<lambda>t. \<not> get_completed t) (tasks s)\<rparr>"]
      by (cases "DATA_FILE \<in> unwritable s") simp_all
    have f2: "files ?s2 =
              files (save_tasks (s\<lparr>tasks := filter (\<lambda>t. \<not> get_completed t) (tasks s)\<rparr>))"
      by (simp add: save_tasks_def Let_def copy_to_backup_def
          split: option.splits content.splits)
    have len: "length (tasks s) - length (filter (\<lambda>t. \<not> get_completed t) (tasks s)) = ?n"
      using sum_length_filter_compl [of get_completed "tasks s"] by simp
    show "tasks (fst (clear_completed confirm s)) = filter (\<lambda>t. \<not> get_completed t) (tasks s) \<and>
      length (tasks s) - length (tasks (fst (clear_completed confirm s))) = ?n \<and>
      AskClear ?n \<in> set (dialogs (fst (clear_completed confirm s))) \<and>
      (snd (clear_completed confirm s) = None \<longrightarrow>
         last (dialogs (fst (clear_completed confirm s))) = InfoCleared ?n) \<and>
      files (fst (clear_completed confirm s)) =
        files (save_tasks (s\<lparr>tasks := filter (\<lambda>t. \<not> get_completed t) (tasks s)\<rparr>))"
      using s3 d2 f2 len by (cases e) (simp_all add: cc)
  qed
  from zero no yes show ?thesis
    unfolding gc by blast
qed

theorem clear_completed_removes_witness:
  "length (filter (\<lambda>t. completed t = Some True) (tasks app_saved)) = 0 \<and>
   tasks (fst (clear_completed True app_saved)) = tasks app_saved \<and>
   files (fst (clear_completed True app_saved)) = files app_saved \<and>
   0 < length (filter (\<lambda>t. completed t = Some True) (tasks app_done)) \<and>
   filter (\<lambda>t. completed t \<noteq> Some True) (tasks app_done) = [done_tasks ! 1, done_tasks ! 2] \<and>
   tasks (fst (clear_completed True app_done)) =
     filter (\<lambda>t. completed t \<noteq> Some True) (tasks app_done) \<and>
   length (filter (\<lambda>t. completed t = Some True) (tasks app_done)) = 2 \<and>
   length (tasks app_done) - length (tasks (fst (clear_completed True app_done))) =
     length (filter (\<lambda>t. completed t = Some True) (tasks app_done)) \<and>
   tasks (fst (clear_completed False app_done)) = tasks app_done \<and>
   files (fst (clear_completed False app_done)) = files app_done"
proof -
  have h1: "length (filter (\<lambda>t. completed t = Some True) (tasks app_saved)) = 0"
    by (simp add: app_saved_def app0_def fruit_tasks_def new_task_def)
  have h2: "0 < length (filter (\<lambda>t. completed t = Some True) (tasks app_done)) \<and>
            length (filter (\<lambda>t. completed t = Some True) (tasks app_done)) = 2 \<and>
            filter (\<lambda>t. completed t \<noteq> Some True) (tasks app_done) =
              [done_tasks ! 1, done_tasks ! 2]"
    by (simp add: app_done_def app0_def done_tasks_def new_task_def)
  from h1 have c1: "tasks (fst (clear_completed True app_saved)) = tasks app_saved \<and>
                    files (fst (clear_completed True app_saved)) = files app_saved"
    using clear_completed_removes [of app_saved True] by blast
  from h2 have c2: "tasks (fst (clear_completed True app_done)) =
                      filter (\<lambda>t. completed t \<noteq> Some True) (tasks app_done) \<and>
                    length (tasks app_done) - length (tasks (fst (clear_completed True app_done))) =
                      length (filter (\<lambda>t. completed t = Some True) (tasks app_done))"
    using clear_completed_removes [of app_done True] by blast
  have c3: "tasks (fst (clear_completed False app_done)) = tasks app_done \<and>
            files (fst (clear_completed False app_done)) = files app_done"
    using clear_completed_removes [of app_done False] by blast
  from h1 h2 c1 c2 c3 show ?thesis
    by blast
qed

subsection \<open>Alphabetical order\<close>

text \<open>
  Claim C7.  In mode \<open>alpha\<close> the view is in ascending order of the lower-cased titles,
  and tasks whose lower-cased titles are equal keep the order they have in the task
  list: for every key, the tasks of the view with that key are, in order, the kept tasks
  with that key.  This holds whenever every task has a title (otherwise the call raises
  \<open>KeyError\<close>).  For three tasks titled banana, Apple, cherry and an empty search,
  the view is Apple, banana, cherry.
\<close>

theorem alphabetical_order:
  "(None \<notin> set (map title ts) \<longrightarrow>
      (\<exists>ys. query search_text Alpha ts = Inr ys \<and>
            sorted (map title_key ys) \<and>
            (\<forall>t \<in> set ys. title_key t = lower (the (title t))) \<and>
            (\<forall>k. filter (\<lambda>t. title_key t = k) ys =
                 filter (\<lambda>t. title_key t = k)
                   (filter (\<lambda>t. lower (strip search_text) = [] \<or>
                                 contains (lower (strip search_text)) (title_key t)) ts)))) \<and>
   (title a = Some ''banana'' \<and> title b = Some ''Apple'' \<and> title c = Some ''cherry'' \<longrightarrow>
      query [] Alpha [a, b, c] = Inr [b, a, c])"
proof (intro conjI impI)
  assume ok: "None \<notin> set (map title ts)"
  let ?kept = "filter (\<lambda>t. lower (strip search_text) = [] \<or>
                          contains (lower (strip search_text)) (title_key t)) ts"
  let ?ys = "sorted_py title_key False ?kept"
  have q: "query search_text Alpha ts = Inr ?ys"
    using query_unfold [OF ok, of search_text Alpha] sort_tasks_Alpha_ok [OF titles_filter [OF ok]]
    by simp
  have k: "\<forall>t \<in> set ?ys. title_key t = lower (the (title t))"
  proof
    fix t
    assume "t \<in> set ?ys"
    then have "t \<in> set ts"
      by (simp add: set_sorted_py)
    then have "title t \<in> set (map title ts)"
      by simp
    with ok have "title t \<noteq> None"
      by metis
    then show "title_key t = lower (the (title t))"
      by (rule title_key_the)
  qed
  have st: "\<forall>k. filter (\<lambda>t. title_key t = k) ?ys = filter (\<lambda>t. title_key t = k) ?kept"
    by (simp only: sorted_py_stable) simp
  show "\<exists>ys. query search_text Alpha ts = Inr ys \<and>
            sorted (map title_key ys) \<and>
            (\<forall>t \<in> set ys. title_key t = lower (the (title t))) \<and>
            (\<forall>k. filter (\<lambda>t. title_key t = k) ys =
                 filter (\<lambda>t. title_key t = k) ?kept)"
    by (rule exI [of _ ?ys], intro conjI q k st sorted_py_ascending)
next
  assume "title a = Some ''banana'' \<and> title b = Some ''Apple'' \<and> title c = Some ''cherry''"
  then show "query [] Alpha [a, b, c] = Inr [b, a, c]"
    by (simp add: query_def sort_tasks_def sorted_py_def title_key_def lower_def
        lower_char_def strip_def)
qed

theorem alphabetical_order_witness:
  "None \<notin> set (map title fruit_tasks) \<and>
   title (fruit_tasks ! 0) = Some ''banana'' \<and>
   title (fruit_tasks ! 1) = Some ''Apple'' \<and>
   title (fruit_tasks ! 2) = Some ''cherry'' \<and>
   query [] Alpha [fruit_tasks ! 0, fruit_tasks ! 1, fruit_tasks ! 2] =
     Inr [fruit_tasks ! 1, fruit_tasks ! 0, fruit_tasks ! 2] \<and>
   query '' A '' Alpha fruit_tasks = Inr [fruit_tasks ! 1, fruit_tasks ! 0] \<and>
   (\<exists>ys. query '' A '' Alpha fruit_tasks = Inr ys \<and> sorted (map title_key ys))"
proof -
  have h: "None \<notin> set (map title fruit_tasks)"
    by (simp add: fruit_tasks_def new_task_def)
  have t: "title (fruit_tasks ! 0) = Some ''banana'' \<and>
           title (fruit_tasks ! 1) = Some ''Apple'' \<and>
           title (fruit_tasks ! 2) = Some ''cherry''"
    by (simp add: fruit_tasks_def new_task_def)
  have v: "query '' A '' Alpha fruit_tasks = Inr [fruit_tasks ! 1, fruit_tasks ! 0]"
    by (simp add: fruit_tasks_def new_task_def query_def sort_tasks_def sorted_py_def
        title_key_def title_lower_def lower_def lower_char_def strip_def isspace_def)
  from h t v show ?thesis
    using alphabetical_order [of fruit_tasks "'' A ''" "fruit_tasks ! 0" "fruit_tasks ! 1"
        "fruit_tasks ! 2"]
    by blast
qed

subsection \<open>Filtering by the search text\<close>

text \<open>
  Claim C8.  With \<open>q\<close> the search text stripped and lower-cased, the view holds exactly
  the tasks whose lower-cased title has \<open>q\<close> as a contiguous substring when \<open>q\<close> is
  not empty, and every task when it is empty; this holds in both sort modes whenever
  every task has a title.  For tasks titled Buy milk, Walk dog, Buy bread, the search
  \<open>buy\<close> in mode \<open>date\<close> gives exactly the two Buy tasks.
\<close>

theorem filter_by_search:
  "(None \<notin> set (map title ts) \<longrightarrow>
      (\<exists>ys. query search_text mode ts = Inr ys \<and>
            mset ys =
              mset (filter (\<lambda>t. lower (strip search_text) = [] \<or>
                                (\<exists>ps ss. lower (the (title t)) =
                                           ps @ lower (strip search_text) @ ss)) ts))) \<and>
   (title a = Some ''Buy milk'' \<and> title b = Some ''Walk dog'' \<and> title c = Some ''Buy bread'' \<longrightarrow>
      (\<exists>ys. query ''buy'' Date [a, b, c] = Inr ys \<and> mset ys = {#a, c#}))"
proof (intro conjI impI)
  assume ok: "None \<notin> set (map title ts)"
  let ?q = "lower (strip search_text)"
  let ?kept = "filter (\<lambda>t. ?q = [] \<or> contains ?q (title_key t)) ts"
  have same: "?kept = filter (\<lambda>t. ?q = [] \<or> (\<exists>ps ss. lower (the (title t)) = ps @ ?q @ ss)) ts"
  proof (rule filter_cong [OF refl])
    fix t
    assume "t \<in> set ts"
    then have "title t \<in> set (map title ts)"
      by simp
    with ok have "title t \<noteq> None"
      by metis
    then show "(?q = [] \<or> contains ?q (title_key t)) =
               (?q = [] \<or> (\<exists>ps ss. lower (the (title t)) = ps @ ?q @ ss))"
      by (simp add: title_key_the contains_iff)
  qed
  have "\<exists>ys. sort_tasks mode ?kept = Inr ys \<and> mset ys = mset ?kept"
  proof (cases mode)
    case Date
    then show ?thesis by (simp add: sort_tasks_Date mset_sorted_py)
  next
    case Alpha
    then show ?thesis
      using sort_tasks_Alpha_ok [OF titles_filter [OF ok]] by (simp add: mset_sorted_py)
  qed
  then show "\<exists>ys. query search_text mode ts = Inr ys \<and>
            mset ys =
              mset (filter (\<lambda>t. ?q = [] \<or> (\<exists>ps ss. lower (the (title t)) = ps @ ?q @ ss)) ts)"
    using query_unfold [OF ok, of search_text mode] same by simp
next
  assume t: "title a = Some ''Buy milk'' \<and> title b = Some ''Walk dog'' \<and> title c = Some ''Buy bread''"
  have q: "lower (strip ''buy'') = ''buy''"
    by (simp add: strip_def lower_def lower_char_def isspace_def)
  have f: "filter_tasks ''buy'' [a, b, c] = Inr [a, c]"
    using t by (simp add: title_lower_def lower_def lower_char_def)
  have "query ''buy'' Date [a, b, c] = Inr (sorted_py get_created_at True [a, c])"
    by (simp only: query_def q Let_def f) (simp add: sort_tasks_Date)
  then show "\<exists>ys. query ''buy'' Date [a, b, c] = Inr ys \<and> mset ys = {#a, c#}"
    by (simp add: mset_sorted_py)
qed

theorem filter_by_search_witness:
  "None \<notin> set (map title buy_tasks) \<and>
   title (buy_tasks ! 0) = Some ''Buy milk'' \<and>
   title (buy_tasks ! 1) = Some ''Walk dog'' \<and>
   title (buy_tasks ! 2) = Some ''Buy bread'' \<and>
   query '' BUY '' Date buy_tasks = Inr [buy_tasks ! 2, buy_tasks ! 0] \<and>
   (\<exists>ys. query ''buy'' Date [buy_tasks ! 0, buy_tasks ! 1, buy_tasks ! 2] = Inr ys \<and>
         mset ys = {#buy_tasks ! 0, buy_tasks ! 2#})"
proof -
  have h: "None \<notin> set (map title buy_tasks)"
    by (simp add: buy_tasks_def new_task_def)
  have t: "title (buy_tasks ! 0) = Some ''Buy milk'' \<and>
           title (buy_tasks ! 1) = Some ''Walk dog'' \<and>
           title (buy_tasks ! 2) = Some ''Buy bread''"
    by (simp add: buy_tasks_def new_task_def)
  have v: "query '' BUY '' Date buy_tasks = Inr [buy_tasks ! 2, buy_tasks ! 0]"
    by (simp add: buy_tasks_def new_task_def query_def sort_tasks_def sorted_py_def
        get_created_at_def title_lower_def lower_def lower_char_def strip_def isspace_def)
  from h t v show ?thesis
    using filter_by_search [of buy_tasks "'' BUY ''" Date "buy_tasks ! 0" "buy_tasks ! 1"
        "buy_tasks ! 2"]
    by blast
qed

subsection \<open>Order by date\<close>

text \<open>
  Claim C9.  In mode \<open>date\<close> the view is in descending order of \<open>created_at\<close> (a
  missing \<open>created_at\<close> counting as the empty string), and tasks with equal
  \<open>created_at\<close> keep the order they have in the task list.  The call returns whenever
  every task has a title, and always when the search text is empty.
\<close>

theorem by_date_order:
  "(query search_text Date ts = Inr ys \<longrightarrow>
      sorted_wrt (\<lambda>a b. get_created_at b \<le> get_created_at a) ys \<and>
      (\<forall>k. filter (\<lambda>t. get_created_at t = k) ys =
           filter (\<lambda>t. get_created_at t = k)
             (filter (\<lambda>t. lower (strip search_text) = [] \<or>
                           contains (lower (strip search_text)) (title_key t)) ts))) \<and>
   (None \<notin> set (map title ts) \<longrightarrow> (\<exists>zs. query search_text Date ts = Inr zs)) \<and>
   (\<exists>zs. query [] Date ts = Inr zs)"
proof (intro conjI impI)
  assume a: "query search_text Date ts = Inr ys"
  let ?kept = "filter (\<lambda>t. lower (strip search_text) = [] \<or>
                          contains (lower (strip search_text)) (title_key t)) ts"
  from query_Inr [OF a] have ys: "ys = sorted_py get_created_at True ?kept"
    by (simp add: sort_tasks_Date)
  show "sorted_wrt (\<lambda>a b. get_created_at b \<le> get_created_at a) ys"
    unfolding ys by (rule sorted_py_descending)
  show "\<forall>k. filter (\<lambda>t. get_created_at t = k) ys = filter (\<lambda>t. get_created_at t = k) ?kept"
    unfolding ys by (simp only: sorted_py_stable) simp
next
  assume "None \<notin> set (map title ts)"
  then show "\<exists>zs. query search_text Date ts = Inr zs"
    by (simp add: query_unfold sort_tasks_Date)
next
  show "\<exists>zs. query [] Date ts = Inr zs"
    by (simp add: query_def strip_def lower_def sort_tasks_Date)
qed

theorem by_date_order_witness:
  "query [] Date dated_tasks =
     Inr [dated_tasks ! 1, dated_tasks ! 0, dated_tasks ! 2, dated_tasks ! 3] \<and>
   None \<notin> set (map title dated_tasks) \<and>
   sorted_wrt (\<lambda>a b. get_created_at b \<le> get_created_at a)
     [dated_tasks ! 1, dated_tasks ! 0, dated_tasks ! 2, dated_tasks ! 3]"
proof -
  have v: "query [] Date dated_tasks =
             Inr [dated_tasks ! 1, dated_tasks ! 0, dated_tasks ! 2, dated_tasks ! 3]"
    by (simp add: dated_tasks_def new_task_def query_def sort_tasks_def sorted_py_def
        get_created_at_def lower_def strip_def)
  have h: "None \<notin> set (map title dated_tasks)"
    by (simp add: dated_tasks_def new_task_def)
  from v h show ?thesis
    using by_date_order [of "[]" dated_tasks
        "[dated_tasks ! 1, dated_tasks ! 0, dated_tasks ! 2, dated_tasks ! 3]"]
    by blast
qed

subsection \<open>Tasks without a creation time\<close>

text \<open>
  Claim C10.  In mode \<open>date\<close> a task without the key \<open>created_at\<close> is sorted with
  the empty string as its key, and so stands after every task of the view whose
  \<open>created_at\<close> is a non-empty string.
\<close>

theorem missing_created_at_last:
  "query search_text Date ts = Inr ys \<and> i < length ys \<and> j < length ys \<and>
   created_at (ys ! i) = None \<and> created_at (ys ! j) = Some s \<and> s \<noteq> [] \<longrightarrow>
     get_created_at (ys ! i) = [] \<and> j < i"
proof (intro impI, elim conjE)
  assume a: "query search_text Date ts = Inr ys"
    and i: "i < length ys" and j: "j < length ys"
    and ci: "created_at (ys ! i) = None" and cj: "created_at (ys ! j) = Some s" and s: "s \<noteq> []"
  have ki: "get_created_at (ys ! i) = []"
    using ci by (simp add: get_created_at_def)
  have kj: "get_created_at (ys ! j) = s"
    using cj by (simp add: get_created_at_def)
  from query_Inr [OF a] have "ys = sorted_py get_created_at True
      (filter (\<lambda>t. lower (strip search_text) = [] \<or>
                    contains (lower (strip search_text)) (title_key t)) ts)"
    by (simp add: sort_tasks_Date)
  then have d: "sorted_wrt (\<lambda>a b. get_created_at b \<le> get_created_at a) ys"
    by (simp only: sorted_py_descending)
  have "\<not> i < j"
  proof
    assume "i < j"
    with d j have "get_created_at (ys ! j) \<le> get_created_at (ys ! i)"
      by (simp add: sorted_wrt_iff_nth_less)
    with ki kj s show False by simp
  qed
  moreover have "i \<noteq> j"
    using ci cj by auto
  ultimately have "j < i" by simp
  with ki show "get_created_at (ys ! i) = [] \<and> j < i" by simp
qed

theorem missing_created_at_last_witness:
  "query [] Date undated_tasks = Inr [undated_tasks ! 1, undated_tasks ! 0] \<and>
   created_at ([undated_tasks ! 1, undated_tasks ! 0] ! 1) = None \<and>
   created_at ([undated_tasks ! 1, undated_tasks ! 0] ! 0) = Some ''2024-01-01T09:00:00'' \<and>
   get_created_at ([undated_tasks ! 1, undated_tasks ! 0] ! 1) = [] \<and> (0::nat) < 1"
proof -
  have v: "query [] Date undated_tasks = Inr [undated_tasks ! 1, undated_tasks ! 0]"
    by (simp add: undated_tasks_def new_task_def query_def sort_tasks_def sorted_py_def
        get_created_at_def lower_def strip_def)
  have c: "created_at ([undated_tasks ! 1, undated_tasks ! 0] ! 1) = None \<and>
           created_at ([undated_tasks ! 1, undated_tasks ! 0] ! 0) = Some ''2024-01-01T09:00:00''"
    by (simp add: undated_tasks_def new_task_def)
  from v c show ?thesis
    using missing_created_at_last [of "[]" undated_tasks
        "[undated_tasks ! 1, undated_tasks ! 0]" 1 0 "''2024-01-01T09:00:00''"]
    by simp
qed

end
